theory Spec2Isabelle
  imports Main
begin

section \<open>JavaScript values and errors\<close>

text \<open>
  The packager of \<^verbatim>\<open>src/client/patch/BasePackager.js\<close> is JavaScript running on Node.js.
  The values it handles are modelled by a small datatype; a Node \<^verbatim>\<open>Buffer\<close> is a list
  of bytes (\<^typ>\<open>char\<close> is an 8-bit byte), a \<^verbatim>\<open>Date\<close> is its time in milliseconds
  since the Unix epoch. JavaScript strings are modelled by \<^typ>\<open>string\<close>.
\<close>

type_synonym bytes = "char list"

datatype js_error =
    TypeError string
  | Error string
  | SystemError string

datatype jsval =
    JUndefined
  | JNull
  | JBool bool
  | JNum int
  | JStr string
  | JBuffer bytes
  | JDate int

text \<open>ECMAScript \<^verbatim>\<open>ToBoolean\<close>, as used by \<^verbatim>\<open>!content\<close>: every object is truthy.\<close>

fun to_boolean :: "jsval \<Rightarrow> bool" where
  "to_boolean JUndefined = False"
| "to_boolean JNull = False"
| "to_boolean (JBool b) = b"
| "to_boolean (JNum n) = (n \<noteq> 0)"
| "to_boolean (JStr s) = (s \<noteq> [])"
| "to_boolean (JBuffer b) = True"
| "to_boolean (JDate t) = True"

text \<open>
  Reading a property \<^verbatim>\<open>v.p\<close>. It throws a \<^verbatim>\<open>TypeError\<close> on \<^verbatim>\<open>undefined\<close> and
  \<^verbatim>\<open>null\<close>; strings and Buffers have \<^verbatim>\<open>length\<close> (a Buffer also \<^verbatim>\<open>byteLength\<close>);
  a property that the value does not have reads as \<^verbatim>\<open>undefined\<close>.
\<close>

fun get_prop :: "jsval \<Rightarrow> string \<Rightarrow> js_error + jsval" where
  "get_prop JUndefined p = Inl (TypeError (''Cannot read properties of undefined (reading '' @ p @ '')''))"
| "get_prop JNull p = Inl (TypeError (''Cannot read properties of null (reading '' @ p @ '')''))"
| "get_prop (JStr s) p = Inr (if p = ''length'' then JNum (int (length s)) else JUndefined)"
| "get_prop (JBuffer b) p =
     Inr (if p = ''length'' \<or> p = ''byteLength'' then JNum (int (length b)) else JUndefined)"
| "get_prop v p = Inr JUndefined"

text \<open>\<^verbatim>\<open>Array.prototype.indexOf\<close>: the first index holding the element, or \<^verbatim>\<open>-1\<close>.\<close>

fun indexOf :: "'a list \<Rightarrow> 'a \<Rightarrow> int" where
  "indexOf [] x = - 1"
| "indexOf (y # ys) x =
     (if y = x then 0 else (let r = indexOf ys x in if r = - 1 then - 1 else r + 1))"

text \<open>\<^verbatim>\<open>String.prototype.split\<close> with a one-character separator, and \<^verbatim>\<open>Array.prototype.join\<close>.\<close>

fun split_acc :: "char \<Rightarrow> string \<Rightarrow> string \<Rightarrow> string list" where
  "split_acc c cur [] = [cur]"
| "split_acc c cur (x # xs) =
     (if x = c then cur # split_acc c [] xs else split_acc c (cur @ [x]) xs)"

definition split_str :: "string \<Rightarrow> char \<Rightarrow> string list" where
  "split_str s c = split_acc c [] s"

fun join_str :: "string list \<Rightarrow> string \<Rightarrow> string" where
  "join_str [] d = []"
| "join_str [x] d = x"
| "join_str (x # y # ys) d = x @ d @ join_str (y # ys) d"

definition backslash :: char where
  "backslash = CHR 0x5C"

section \<open>The path module\<close>

text \<open>
  \<^verbatim>\<open>require('path')\<close> is Node's platform-dependent module object (\<^verbatim>\<open>path.posix\<close> on
  POSIX hosts, \<^verbatim>\<open>path.win32\<close> on Windows). The packager receives it as a record of the
  functions it calls, so that every statement about the packager holds for either host.
\<close>

record path_module =
  p_sep :: char
  p_extname :: "string \<Rightarrow> string"
  p_join :: "string \<Rightarrow> string \<Rightarrow> string"
  p_relative :: "string \<Rightarrow> string \<Rightarrow> string"

subsection \<open>\<^verbatim>\<open>path.posix.extname\<close>\<close>

text \<open>
  Node's loop runs over the path from its last character to its first, and stops
  (\<^verbatim>\<open>break\<close>) at the separator in front of the last path component.
  \<open>extname_loop path n s\<close> runs the iterations \<open>i = n - 1, \<dots>, 0\<close>.
\<close>

record ext_state =
  startDot :: int
  startPart :: int
  endIdx :: int
  matchedSlash :: bool
  preDotState :: int

definition ext_init :: ext_state where
  "ext_init = \<lparr>startDot = - 1, startPart = 0, endIdx = - 1, matchedSlash = True, preDotState = 0\<rparr>"

fun extname_loop :: "string \<Rightarrow> nat \<Rightarrow> ext_state \<Rightarrow> ext_state" where
  "extname_loop path 0 s = s"
| "extname_loop path (Suc i) s =
     (let code = path ! i in
      if code = CHR ''/'' then
        (if \<not> matchedSlash s then s\<lparr>startPart := int i + 1\<rparr>
         else extname_loop path i s)
      else
        (let s1 = (if endIdx s = - 1 then s\<lparr>matchedSlash := False, endIdx := int i + 1\<rparr> else s);
             s2 = (if code = CHR ''.'' then
                     (if startDot s1 = - 1 then s1\<lparr>startDot := int i\<rparr>
                      else if preDotState s1 \<noteq> 1 then s1\<lparr>preDotState := 1\<rparr>
                      else s1)
                   else if startDot s1 \<noteq> - 1 then s1\<lparr>preDotState := - 1\<rparr>
                   else s1)
         in extname_loop path i s2))"

definition slice :: "string \<Rightarrow> int \<Rightarrow> int \<Rightarrow> string" where
  "slice s a b = take (nat b - nat a) (drop (nat a) s)"

definition posix_extname :: "string \<Rightarrow> string" where
  "posix_extname path =
     (let s = extname_loop path (length path) ext_init in
      if startDot s = - 1 \<or> endIdx s = - 1 \<or> preDotState s = 0 \<or>
         (preDotState s = 1 \<and> startDot s = endIdx s - 1 \<and> startDot s = startPart s + 1)
      then []
      else slice path (startDot s) (endIdx s))"

subsection \<open>\<^verbatim>\<open>path.posix.join\<close> and \<^verbatim>\<open>path.posix.relative\<close>\<close>

text \<open>
  Node's \<^verbatim>\<open>normalizeString\<close> walks the segments between separators: it drops empty
  segments and \<^verbatim>\<open>.\<close>, and lets \<^verbatim>\<open>..\<close> remove the segment before it (or keeps it,
  when the path is relative and there is nothing left to remove). The functions below
  compute on the list of segments what Node computes character by character.
\<close>

fun normalize_parts :: "bool \<Rightarrow> string list \<Rightarrow> string list \<Rightarrow> string list" where
  "normalize_parts allowAboveRoot res [] = res"
| "normalize_parts allowAboveRoot res (seg # segs) =
     (if seg = [] \<or> seg = ''.'' then normalize_parts allowAboveRoot res segs
      else if seg = ''..'' then
        (if res \<noteq> [] \<and> last res \<noteq> ''..'' then normalize_parts allowAboveRoot (butlast res) segs
         else if allowAboveRoot then normalize_parts allowAboveRoot (res @ [''..'']) segs
         else normalize_parts allowAboveRoot res segs)
      else normalize_parts allowAboveRoot (res @ [seg]) segs)"

definition posix_normalize :: "string \<Rightarrow> string" where
  "posix_normalize path =
     (if path = [] then ''.''
      else
        (let isAbsolute = (hd path = CHR ''/'');
             trailingSeparator = (last path = CHR ''/'');
             p = join_str (normalize_parts (\<not> isAbsolute) [] (split_str path CHR ''/'')) ''/''
         in if p = [] then (if isAbsolute then ''/'' else if trailingSeparator then ''./'' else ''.'')
            else (if isAbsolute then ''/'' else []) @ p @ (if trailingSeparator then ''/'' else [])))"

definition posix_join :: "string \<Rightarrow> string \<Rightarrow> string" where
  "posix_join a b =
     (let args = filter (\<lambda>arg. arg \<noteq> []) [a, b] in
      if args = [] then ''.'' else posix_normalize (join_str args ''/''))"

text \<open>\<^verbatim>\<open>path.posix.resolve\<close> of one path against the working directory (an absolute path).\<close>

definition posix_resolve :: "string \<Rightarrow> string \<Rightarrow> string" where
  "posix_resolve cwd p =
     (let full = (if p = [] then cwd else if hd p = CHR ''/'' then p else cwd @ ''/'' @ p)
      in ''/'' @ join_str (normalize_parts False [] (split_str full CHR ''/'')) ''/'')"

fun common_prefix_length :: "'a list \<Rightarrow> 'a list \<Rightarrow> nat" where
  "common_prefix_length (x # xs) (y # ys) = (if x = y then Suc (common_prefix_length xs ys) else 0)"
| "common_prefix_length xs ys = 0"

definition posix_relative :: "string \<Rightarrow> string \<Rightarrow> string \<Rightarrow> string" where
  "posix_relative cwd from to =
     (if from = to then []
      else
        (let f = posix_resolve cwd from; t = posix_resolve cwd to in
         if f = t then []
         else
           (let fparts = normalize_parts False [] (split_str f CHR ''/'');
                tparts = normalize_parts False [] (split_str t CHR ''/'');
                n = common_prefix_length fparts tparts
            in join_str (replicate (length fparts - n) ''..'' @ drop n tparts) ''/'')))"

definition posix_path :: "string \<Rightarrow> path_module" where
  "posix_path cwd =
     \<lparr>p_sep = CHR ''/'', p_extname = posix_extname, p_join = posix_join,
      p_relative = posix_relative cwd\<rparr>"

section \<open>The packager\<close>

text \<open>
  \<^verbatim>\<open>this.keep\<close> is whatever the constructor was given: an array of extensions, or
  \<^verbatim>\<open>undefined\<close> (\<open>None\<close>) when the optional parameter was left out.
\<close>

record packager =
  keep :: "string list option"

text \<open>
  The constructor. \<open>direct\<close> says that \<^verbatim>\<open>this.constructor === BasePackager\<close>,
  \<open>overrides\<close> that the subclass supplies its own \<^verbatim>\<open>package\<close> method.
\<close>

definition BasePackager_constructor ::
  "bool \<Rightarrow> bool \<Rightarrow> string list option \<Rightarrow> js_error + packager" where
  "BasePackager_constructor direct overrides k =
     (if direct then Inl (TypeError ''Can not construct abstract class.'')
      else if \<not> overrides then Inl (TypeError ''Please implement method package from child class'')
      else Inr \<lparr>keep = k\<rparr>)"

definition isMetadata :: "path_module \<Rightarrow> string \<Rightarrow> bool" where
  "isMetadata pm filePath =
     (let extensions = [''.json''] in indexOf extensions (p_extname pm filePath) \<noteq> - 1)"

definition isSource :: "path_module \<Rightarrow> packager \<Rightarrow> string \<Rightarrow> js_error + bool" where
  "isSource pm this filePath =
     (case keep this of
        None \<Rightarrow> Inl (TypeError ''Cannot read properties of undefined (reading 'indexOf')'')
      | Some ks \<Rightarrow> Inr (indexOf ks (p_extname pm filePath) \<noteq> - 1))"

text \<open>
  The keep list is documented as an array of valid source file extensions; an extension
  is written with its leading dot.
\<close>

fun has_leading_dot :: "string \<Rightarrow> bool" where
  "has_leading_dot [] = False"
| "has_leading_dot (c # cs) = (c = CHR ''.'')"

section \<open>The file system\<close>

text \<open>
  A file system maps a path to a node: its bytes, whether it is a regular file, whether
  the process may read it, and its three timestamps (milliseconds since the epoch).
\<close>

record file_node =
  f_content :: bytes
  regular :: bool
  readable :: bool
  st_atime :: int
  st_mtime :: int
  st_ctime :: int

type_synonym filesystem = "string \<Rightarrow> file_node option"

text \<open>
  \<^verbatim>\<open>fs.readFileSync(p)\<close> without an encoding: it returns a Buffer of the whole file, or
  throws.
\<close>

definition readFileSync :: "filesystem \<Rightarrow> string \<Rightarrow> js_error + jsval" where
  "readFileSync files p =
     (case files p of
        None \<Rightarrow> Inl (SystemError ''ENOENT'')
      | Some f \<Rightarrow>
          if \<not> regular f then Inl (SystemError ''EISDIR'')
          else if \<not> readable f then Inl (SystemError ''EACCES'')
          else Inr (JBuffer (f_content f)))"

section \<open>Promises\<close>

datatype 'a promise = Pending | Resolved 'a | Rejected js_error

text \<open>A promise settles once: \<^verbatim>\<open>resolve\<close> and \<^verbatim>\<open>reject\<close> on a settled promise do nothing.\<close>

definition resolve :: "'a promise \<Rightarrow> 'a \<Rightarrow> 'a promise" where
  "resolve p v = (case p of Pending \<Rightarrow> Resolved v | _ \<Rightarrow> p)"

definition reject :: "'a promise \<Rightarrow> js_error \<Rightarrow> 'a promise" where
  "reject p e = (case p of Pending \<Rightarrow> Rejected e | _ \<Rightarrow> p)"

section \<open>Descriptors and the tar pack\<close>

record descriptor =
  name :: string
  fqp :: string

text \<open>The header object that \<^verbatim>\<open>packEntry\<close> builds (fields \<^verbatim>\<open>name\<close>, \<^verbatim>\<open>size\<close>, \<^verbatim>\<open>mode\<close>,
  \<^verbatim>\<open>atime\<close>, \<^verbatim>\<open>mtime\<close>, \<^verbatim>\<open>ctime\<close>).\<close>

record header =
  h_name :: string
  h_size :: jsval
  h_mode :: int
  h_atime :: jsval
  h_mtime :: jsval
  h_ctime :: jsval

text \<open>
  The \<^verbatim>\<open>tar-stream\<close> pack: the entries appended so far, each a header with its content,
  and whether \<^verbatim>\<open>finalize\<close> was called.
\<close>

record pack =
  entries :: "(header \<times> jsval) list"
  finalized :: bool

definition tar_pack :: pack where
  "tar_pack = \<lparr>entries = [], finalized = False\<rparr>"

text \<open>
  What the packager does not decide: the files on disk, and the error (if any) that the
  tar library hands to the callback of \<^verbatim>\<open>pack.entry\<close>. The library is taken to call
  the callback, and to append the entry unless it reports an error.
\<close>

record env =
  files :: filesystem
  tar_entry_error :: "header \<Rightarrow> jsval \<Rightarrow> js_error option"

definition pack_entry :: "env \<Rightarrow> pack \<Rightarrow> header \<Rightarrow> jsval \<Rightarrow> pack \<times> js_error option" where
  "pack_entry e pk h c =
     (case tar_entry_error e h c of
        None \<Rightarrow> (pk\<lparr>entries := entries pk @ [(h, c)]\<rparr>, None)
      | Some err \<Rightarrow> (pk, Some err))"

definition pack_finalize :: "pack \<Rightarrow> pack" where
  "pack_finalize pk = pk\<lparr>finalized := True\<rparr>"

text \<open>The mode \<^verbatim>\<open>0o100644\<close>, and the two parts of a mode: file type and permission bits.\<close>

definition mode_0o100644 :: int where
  "mode_0o100644 = 33188"

definition S_IFREG :: int where
  "S_IFREG = 32768"

definition mode_type :: "int \<Rightarrow> int" where
  "mode_type m = (m div 4096) * 4096"

definition mode_perm :: "int \<Rightarrow> int" where
  "mode_perm m = m mod 4096"

section \<open>\<^verbatim>\<open>packEntry\<close>\<close>

text \<open>
  The promise executor runs at once. An exception thrown inside it (by
  \<^verbatim>\<open>readFileSync\<close>, or by a property read) rejects the promise. The result is the
  promise as settled and the pack as left.
\<close>

definition packEntry :: "env \<Rightarrow> pack \<Rightarrow> descriptor \<Rightarrow> jsval promise \<times> pack" where
  "packEntry e pk desc =
     (case readFileSync (files e) (fqp desc) of
        Inl thrown \<Rightarrow> (Rejected thrown, pk)
      | Inr content \<Rightarrow>
          if \<not> to_boolean content then (Rejected (Error (''failed to read '' @ fqp desc)), pk)
          else
            (case get_prop content ''size'' of
               Inl thrown \<Rightarrow> (Rejected thrown, pk)
             | Inr sz \<Rightarrow>
                 (let zeroTime = JDate 0;
                      hdr = \<lparr>h_name = name desc, h_size = sz, h_mode = mode_0o100644,
                             h_atime = zeroTime, h_mtime = zeroTime, h_ctime = zeroTime\<rparr>
                  in case pack_entry e pk hdr content of
                       (pk', Some err) \<Rightarrow> (Rejected err, pk')
                     | (pk', None) \<Rightarrow> (Resolved (JBool True), pk'))))"

section \<open>\<^verbatim>\<open>generateTarGz\<close>\<close>

text \<open>
  The three streams of the pipeline, the events they emit (\<^verbatim>\<open>error\<close> carries the
  error), and the two listeners that \<^verbatim>\<open>generateTarGz\<close> registers.
\<close>

datatype stream = PackStream | GzipStream | DestStream

datatype event = Finish | ErrorEvent js_error | DataEvent | DrainEvent | EndEvent | CloseEvent

fun event_name :: "event \<Rightarrow> string" where
  "event_name Finish = ''finish''"
| "event_name (ErrorEvent err) = ''error''"
| "event_name DataEvent = ''data''"
| "event_name DrainEvent = ''drain''"
| "event_name EndEvent = ''end''"
| "event_name CloseEvent = ''close''"

datatype listener = OnFinish | OnError

record gstate =
  promise :: "jsval promise"
  tar :: pack
  todo :: "descriptor list"
  pipes :: "(stream \<times> stream) list"
  listeners :: "(stream \<times> string \<times> listener) list"
  uncaught :: "js_error list"

text \<open>\<^verbatim>\<open>src.pipe(dst)\<close> returns \<^verbatim>\<open>dst\<close>; \<^verbatim>\<open>emitter.on(name, f)\<close> returns the emitter.\<close>

definition stream_pipe :: "gstate \<Rightarrow> stream \<Rightarrow> stream \<Rightarrow> gstate \<times> stream" where
  "stream_pipe s src dst = (s\<lparr>pipes := pipes s @ [(src, dst)]\<rparr>, dst)"

definition stream_on :: "gstate \<Rightarrow> stream \<Rightarrow> string \<Rightarrow> listener \<Rightarrow> gstate \<times> stream" where
  "stream_on s emitter n l = (s\<lparr>listeners := listeners s @ [(emitter, n, l)]\<rparr>, emitter)"

text \<open>The listeners' bodies: \<^verbatim>\<open>() => resolve(true)\<close> and \<^verbatim>\<open>(err) => reject(err)\<close>.\<close>

fun run_listener :: "listener \<Rightarrow> event \<Rightarrow> jsval promise \<Rightarrow> jsval promise" where
  "run_listener OnFinish ev p = resolve p (JBool True)"
| "run_listener OnError (ErrorEvent err) p = reject p err"
| "run_listener OnError ev p = p"

text \<open>
  A stream emits an event: its listeners for that event run in the order they were
  registered. An \<^verbatim>\<open>error\<close> event with no listener is thrown, and nothing catches it.
\<close>

definition emit :: "gstate \<Rightarrow> stream \<Rightarrow> event \<Rightarrow> gstate" where
  "emit s emitter ev =
     (let ls = map (\<lambda>(em, n, l). l)
                 (filter (\<lambda>(em, n, l). em = emitter \<and> n = event_name ev) (listeners s))
      in if ls = [] then (case ev of ErrorEvent err \<Rightarrow> s\<lparr>uncaught := uncaught s @ [err]\<rparr> | _ \<Rightarrow> s)
         else s\<lparr>promise := foldl (\<lambda>p l. run_listener l ev p) (promise s) ls\<rparr>)"

text \<open>The synchronous start of the executor: the pack, the pipeline and its listeners.\<close>

definition generateTarGz_setup :: "descriptor list \<Rightarrow> gstate" where
  "generateTarGz_setup descriptors =
     (let s0 = \<lparr>promise = Pending, tar = tar_pack, todo = descriptors, pipes = [],
                listeners = [], uncaught = []\<rparr>;
          (s1, gz) = stream_pipe s0 PackStream GzipStream;
          (s2, dest) = stream_pipe s1 gz DestStream;
          (s3, em) = stream_on s2 dest ''finish'' OnFinish;
          (s4, em') = stream_on s3 em ''error'' OnError
      in s4)"

text \<open>
  One turn of the executor: the next iteration of the \<^verbatim>\<open>for\<close> loop (\<^verbatim>\<open>packEntry\<close> is
  awaited; if it rejects, the \<^verbatim>\<open>catch\<close> block calls \<^verbatim>\<open>reject\<close> and the loop goes on), or,
  when no descriptor is left, \<^verbatim>\<open>pack.finalize()\<close>.
\<close>

definition executor_turn :: "env \<Rightarrow> gstate \<Rightarrow> gstate" where
  "executor_turn e s =
     (case todo s of
        desc # rest \<Rightarrow>
          (case packEntry e (tar s) desc of
             (Rejected err, pk) \<Rightarrow> s\<lparr>promise := reject (promise s) err, tar := pk, todo := rest\<rparr>
           | (settled, pk) \<Rightarrow> s\<lparr>tar := pk, todo := rest\<rparr>)
      | [] \<Rightarrow> s\<lparr>tar := pack_finalize (tar s)\<rparr>)"

text \<open>
  The event loop interleaves the executor's turns with the events of the streams; a
  schedule lists them in the order they happen.
\<close>

datatype action = Turn | Emit stream event

fun step :: "env \<Rightarrow> gstate \<Rightarrow> action \<Rightarrow> gstate" where
  "step e s Turn = executor_turn e s"
| "step e s (Emit emitter ev) = emit s emitter ev"

definition generateTarGz :: "env \<Rightarrow> descriptor list \<Rightarrow> action list \<Rightarrow> gstate" where
  "generateTarGz e descriptors schedule = foldl (step e) (generateTarGz_setup descriptors) schedule"

definition turns :: "action list \<Rightarrow> nat" where
  "turns schedule = length (filter (\<lambda>a. a = Turn) schedule)"

text \<open>
  The bytes the destination receives: the tar encoding of the pack's entries, closed by
  the end-of-archive marker once the pack is finalized, through the compressor. The
  encoders belong to \<^verbatim>\<open>tar-stream\<close> and \<^verbatim>\<open>zlib\<close>; they are parameters here.
\<close>

definition tar_bytes :: "(header \<Rightarrow> jsval \<Rightarrow> bytes) \<Rightarrow> bytes \<Rightarrow> pack \<Rightarrow> bytes" where
  "tar_bytes encode_entry end_marker pk =
     concat (map (\<lambda>(h, c). encode_entry h c) (entries pk)) @
     (if finalized pk then end_marker else [])"

definition dest_bytes ::
  "(header \<Rightarrow> jsval \<Rightarrow> bytes) \<Rightarrow> bytes \<Rightarrow> (bytes \<Rightarrow> bytes) \<Rightarrow> gstate \<Rightarrow> bytes" where
  "dest_bytes encode_entry end_marker gzip s = gzip (tar_bytes encode_entry end_marker (tar s))"

section \<open>\<^verbatim>\<open>findMetadataDescriptors\<close>\<close>

text \<open>
  \<^verbatim>\<open>klaw(filePath)\<close> is a stream of items \<^verbatim>\<open>{path, stats}\<close>; of the stats the packager
  reads \<^verbatim>\<open>isFile()\<close> only. The walk is given as the events the stream emits. On
  \<^verbatim>\<open>end\<close> the promise resolves with the descriptors gathered so far, on \<^verbatim>\<open>error\<close> it
  rejects.
\<close>

record entry =
  e_path :: string
  e_isFile :: bool

datatype walk_event = Data entry | WalkError js_error | End

definition metadata_name :: "path_module \<Rightarrow> string \<Rightarrow> string \<Rightarrow> string" where
  "metadata_name pm filePath entry_path =
     join_str (split_str (p_join pm ''META-INF'' (p_relative pm filePath entry_path)) backslash) ''/''"

fun walk_step ::
  "path_module \<Rightarrow> string \<Rightarrow> descriptor list \<times> descriptor list promise \<Rightarrow> walk_event \<Rightarrow>
   descriptor list \<times> descriptor list promise" where
  "walk_step pm filePath (descriptors, p) (Data ent) =
     (if e_isFile ent \<and> isMetadata pm (e_path ent) then
        (let desc = \<lparr>name = metadata_name pm filePath (e_path ent), fqp = e_path ent\<rparr>
         in (descriptors @ [desc], p))
      else (descriptors, p))"
| "walk_step pm filePath (descriptors, p) (WalkError err) = (descriptors, reject p err)"
| "walk_step pm filePath (descriptors, p) End = (descriptors, resolve p descriptors)"

definition findMetadataDescriptors ::
  "path_module \<Rightarrow> string \<Rightarrow> walk_event list \<Rightarrow> descriptor list promise" where
  "findMetadataDescriptors pm filePath walk = snd (foldl (walk_step pm filePath) ([], Pending) walk)"

text \<open>
  The specification's wording of a metadata entry's logical name: \<^verbatim>\<open>"META-INF/"\<close>, then
  the path relative to the metadata root with the host's separator turned into \<^verbatim>\<open>/\<close>.
\<close>

definition spec_logical_name :: "path_module \<Rightarrow> string \<Rightarrow> string" where
  "spec_logical_name pm rel = ''META-INF/'' @ map (\<lambda>c. if c = p_sep pm then CHR ''/'' else c) rel"

section \<open>The loop's effect on the pack\<close>

text \<open>The pack after the \<^verbatim>\<open>for\<close> loop of \<^verbatim>\<open>generateTarGz\<close> has visited the given descriptors.\<close>

definition loop_pack :: "env \<Rightarrow> pack \<Rightarrow> descriptor list \<Rightarrow> pack" where
  "loop_pack e pk ds = foldl (\<lambda>pk d. snd (packEntry e pk d)) pk ds"

section \<open>Example files\<close>

text \<open>
  Two file systems holding the same chaincode sources under different directories and
  with different timestamps; the first also has a file that the process may not read.
\<close>

definition example_files :: filesystem where
  "example_files p =
     (if p = ''/cc/main.go'' then
        Some \<lparr>f_content = ''package main'', regular = True, readable = True,
              st_atime = 1700000000000, st_mtime = 1700000000000, st_ctime = 1700000000000\<rparr>
      else if p = ''/cc/empty.go'' then
        Some \<lparr>f_content = [], regular = True, readable = True,
              st_atime = 1700000000000, st_mtime = 1700000000000, st_ctime = 1700000000000\<rparr>
      else if p = ''/cc/secret.go'' then
        Some \<lparr>f_content = ''package secret'', regular = True, readable = False,
              st_atime = 1700000000000, st_mtime = 1700000000000, st_ctime = 1700000000000\<rparr>
      else None)"

definition touched_files :: filesystem where
  "touched_files p =
     (if p = ''/build/cc/main.go'' then
        Some \<lparr>f_content = ''package main'', regular = True, readable = True,
              st_atime = 1800000000000, st_mtime = 1800000000001, st_ctime = 1800000000002\<rparr>
      else if p = ''/build/cc/empty.go'' then
        Some \<lparr>f_content = [], regular = True, readable = True,
              st_atime = 1800000000003, st_mtime = 1800000000004, st_ctime = 1800000000005\<rparr>
      else None)"

definition example_env :: env where
  "example_env = \<lparr>files = example_files, tar_entry_error = (\<lambda>h c. None)\<rparr>"

definition touched_env :: env where
  "touched_env = \<lparr>files = touched_files, tar_entry_error = (\<lambda>h c. None)\<rparr>"

section \<open>Names of directory entries\<close>

text \<open>
  A segment of a normalized POSIX path: not empty, without \<^verbatim>\<open>/\<close>, and neither \<^verbatim>\<open>.\<close> nor
  \<^verbatim>\<open>..\<close>.
\<close>

definition clean_segment :: "string \<Rightarrow> bool" where
  "clean_segment seg = (seg \<noteq> [] \<and> CHR ''/'' \<notin> set seg \<and> seg \<noteq> ''.'' \<and> seg \<noteq> ''..'')"

section \<open>Array and string helpers\<close>

lemma indexOf_lower: "- 1 \<le> indexOf xs x"
  by (induction xs) (auto simp: Let_def)

lemma indexOf_found: "(indexOf xs x \<noteq> - 1) = (x \<in> set xs)"
proof (induction xs)
  case Nil
  show ?case by simp
next
  case (Cons y ys)
  have "indexOf ys x + 1 \<noteq> - 1"
    using indexOf_lower [of ys x] by arith
  with Cons show ?case
    by (auto simp: Let_def)
qed

section \<open>Classification by extension\<close>

text \<open>
  C7: \<open>isSource\<close> holds of a path exactly when the path's extension (as \<^verbatim>\<open>path.extname\<close>
  gives it, dot included) is an element of the keep list, and \<open>isMetadata\<close> exactly when the
  extension is \<^verbatim>\<open>.json\<close>. Elements are compared for equality, so case matters. A path
  without an extension (its extension is the empty string) is never metadata, and never
  source for a keep list of extensions, each with its leading dot.
\<close>

theorem classification_by_extension:
  assumes "keep this = Some ks"
  shows "isSource pm this p = Inr (p_extname pm p \<in> set ks) \<and>
         isMetadata pm p = (p_extname pm p = ''.json'') \<and>
         (p_extname pm p = [] \<longrightarrow> \<not> isMetadata pm p) \<and>
         ((\<forall>ext\<in>set ks. has_leading_dot ext) \<longrightarrow> p_extname pm p = [] \<longrightarrow>
            isSource pm this p = Inr False)"
proof -
  have src: "isSource pm this p = Inr (p_extname pm p \<in> set ks)"
    using assms by (simp add: isSource_def indexOf_found)
  have meta: "isMetadata pm p = (p_extname pm p = ''.json'')"
    by (simp add: isMetadata_def Let_def)
  have nometa: "p_extname pm p = [] \<longrightarrow> \<not> isMetadata pm p"
    unfolding meta by simp
  have nosrc: "(\<forall>ext\<in>set ks. has_leading_dot ext) \<longrightarrow> p_extname pm p = [] \<longrightarrow>
      isSource pm this p = Inr False"
  proof (intro impI)
    assume dots: "\<forall>ext\<in>set ks. has_leading_dot ext" and none: "p_extname pm p = []"
    have "[] \<notin> set ks"
    proof
      assume "[] \<in> set ks"
      with dots have "has_leading_dot []" by (rule bspec)
      then show False by simp
    qed
    with none show "isSource pm this p = Inr False"
      unfolding src by simp
  qed
  show ?thesis
    using src meta nometa nosrc by (intro conjI)
qed

theorem classification_by_extension_witness:
  "isSource (posix_path ''/'') \<lparr>keep = Some [''.go'', ''.h'']\<rparr> ''src/cc/main.go'' = Inr True \<and>
   isSource (posix_path ''/'') \<lparr>keep = Some [''.go'', ''.h'']\<rparr> ''src/cc/main.GO'' = Inr False \<and>
   isSource (posix_path ''/'') \<lparr>keep = Some [''.go'', ''.h'']\<rparr> ''src/cc/Makefile'' = Inr False \<and>
   isMetadata (posix_path ''/'') ''meta/idx.json'' \<and>
   \<not> isMetadata (posix_path ''/'') ''meta/idx.JSON'' \<and>
   \<not> isMetadata (posix_path ''/'') ''src/cc/Makefile''"
proof -
  let ?pm = "posix_path ''/''"
  let ?this = "\<lparr>keep = Some [''.go'', ''.h'']\<rparr>"
  have k: "keep ?this = Some [''.go'', ''.h'']" by simp
  have dots: "\<forall>ext\<in>set [''.go'', ''.h'']. has_leading_dot ext" by simp
  have e1: "p_extname ?pm ''src/cc/main.go'' = ''.go''"
    by code_simp
  have e2: "p_extname ?pm ''src/cc/main.GO'' = ''.GO''"
    by code_simp
  have e3: "p_extname ?pm ''src/cc/Makefile'' = []"
    by code_simp
  have e4: "p_extname ?pm ''meta/idx.json'' = ''.json''"
    by code_simp
  have e5: "p_extname ?pm ''meta/idx.JSON'' = ''.JSON''"
    by code_simp
  show ?thesis
    using classification_by_extension [OF k, of ?pm "''src/cc/main.go''"]
      classification_by_extension [OF k, of ?pm "''src/cc/main.GO''"]
      classification_by_extension [OF k, of ?pm "''src/cc/Makefile''"]
      classification_by_extension [OF k, of ?pm "''meta/idx.json''"]
      classification_by_extension [OF k, of ?pm "''meta/idx.JSON''"]
    using dots by (simp add: e1 e2 e3 e4 e5)
qed

text \<open>
  C10: a packager of a subclass that was constructed without a keep array is constructed
  all right, and \<open>isSource\<close> then throws a \<^verbatim>\<open>TypeError\<close> on every path, where a packager
  with a keep list (even the empty one) returns a boolean.
\<close>

theorem isSource_without_keep_throws:
  "\<exists>this. BasePackager_constructor False True None = Inr this \<and>
     (\<forall>pm p. \<exists>msg. isSource pm this p = Inl (TypeError msg)) \<and>
     (\<forall>pm p ks. \<exists>b. isSource pm \<lparr>keep = Some ks\<rparr> p = Inr b)"
  by (simp add: BasePackager_constructor_def isSource_def)

section \<open>\<^verbatim>\<open>packEntry\<close> and the pack\<close>

lemma packEntry_fst_indep: "fst (packEntry e pk d) = fst (packEntry e pk' d)"
  by (simp add: packEntry_def pack_entry_def Let_def split: sum.splits option.splits)

lemma packEntry_frame:
  "snd (packEntry e pk d) = pk\<lparr>entries := entries pk @ entries (snd (packEntry e tar_pack d))\<rparr>"
  by (simp add: packEntry_def pack_entry_def tar_pack_def Let_def split: sum.splits option.splits)

lemma packEntry_appended:
  assumes "fst (packEntry e tar_pack d) = Resolved v"
  shows "\<exists>h c. entries (snd (packEntry e tar_pack d)) = [(h, c)] \<and> h_name h = name d \<and>
           readFileSync (files e) (fqp d) = Inr c"
  using assms
  by (auto simp: packEntry_def pack_entry_def tar_pack_def Let_def split: sum.splits option.splits if_splits)

lemma packEntry_not_appended:
  assumes "fst (packEntry e tar_pack d) \<noteq> Resolved (JBool True)"
  shows "entries (snd (packEntry e tar_pack d)) = []"
  using assms
  by (auto simp: packEntry_def pack_entry_def tar_pack_def Let_def split: sum.splits option.splits if_splits)

lemma packEntry_settles: "fst (packEntry e pk d) = Resolved (JBool True) \<or> (\<exists>err. fst (packEntry e pk d) = Rejected err)"
  by (auto simp: packEntry_def pack_entry_def Let_def split: sum.splits option.splits if_splits)

section \<open>The pack during a run of \<^verbatim>\<open>generateTarGz\<close>\<close>

lemma loop_pack_Nil: "loop_pack e pk [] = pk"
  by (simp add: loop_pack_def)

lemma loop_pack_Cons: "loop_pack e pk (d # ds) = loop_pack e (snd (packEntry e pk d)) ds"
  by (simp add: loop_pack_def)

lemma pack_finalize_idem: "pack_finalize (pack_finalize pk) = pack_finalize pk"
  by (simp add: pack_finalize_def)

lemma turns_Cons: "turns (a # sch) = (if a = Turn then Suc (turns sch) else turns sch)"
  by (simp add: turns_def)

lemma turns_Nil: "turns [] = 0"
  by (simp add: turns_def)

lemma emit_frame:
  "tar (emit s em ev) = tar s" "todo (emit s em ev) = todo s"
  "listeners (emit s em ev) = listeners s" "pipes (emit s em ev) = pipes s"
  by (simp_all add: emit_def Let_def split: event.splits)

lemma executor_turn_Nil:
  "todo s = [] \<Longrightarrow> executor_turn e s = s\<lparr>tar := pack_finalize (tar s)\<rparr>"
  by (simp add: executor_turn_def)

lemma executor_turn_Cons_tar:
  "todo s = d # rest \<Longrightarrow> tar (executor_turn e s) = snd (packEntry e (tar s) d)"
  by (simp add: executor_turn_def split: prod.splits promise.splits)

lemma executor_turn_Cons_todo:
  "todo s = d # rest \<Longrightarrow> todo (executor_turn e s) = rest"
  by (simp add: executor_turn_def split: prod.splits promise.splits)

lemma run_tar:
  "tar (foldl (step e) s sch) =
     (if length (todo s) < turns sch then pack_finalize (loop_pack e (tar s) (todo s))
      else loop_pack e (tar s) (take (turns sch) (todo s)))"
proof (induction sch arbitrary: s)
  case Nil
  show ?case by (simp add: turns_Nil loop_pack_Nil)
next
  case (Cons a sch)
  show ?case
  proof (cases a)
    case (Emit em ev)
    then show ?thesis
      using Cons.IH [of "emit s em ev"] by (simp add: turns_Cons emit_frame)
  next
    case Turn
    show ?thesis
    proof (cases "todo s")
      case Nil
      have "tar (foldl (step e) (executor_turn e s) sch) = pack_finalize (tar s)"
        using Cons.IH [of "executor_turn e s"] Nil
        by (simp add: executor_turn_Nil loop_pack_Nil pack_finalize_idem)
      with Turn Nil show ?thesis
        by (simp add: turns_Cons loop_pack_Nil)
    next
      case (Cons d rest)
      have "tar (foldl (step e) (executor_turn e s) sch) =
          (if length rest < turns sch
           then pack_finalize (loop_pack e (snd (packEntry e (tar s) d)) rest)
           else loop_pack e (snd (packEntry e (tar s) d)) (take (turns sch) rest))"
        using Cons.IH [of "executor_turn e s"]
        by (simp add: executor_turn_Cons_tar [OF Cons] executor_turn_Cons_todo [OF Cons])
      with Turn Cons show ?thesis
        by (simp add: turns_Cons loop_pack_Cons)
    qed
  qed
qed

lemma setup_fields:
  "tar (generateTarGz_setup ds) = tar_pack" "todo (generateTarGz_setup ds) = ds"
  "promise (generateTarGz_setup ds) = Pending" "uncaught (generateTarGz_setup ds) = []"
  "listeners (generateTarGz_setup ds) = [(DestStream, ''finish'', OnFinish), (DestStream, ''error'', OnError)]"
  "pipes (generateTarGz_setup ds) = [(PackStream, GzipStream), (GzipStream, DestStream)]"
  by (simp_all add: generateTarGz_setup_def stream_pipe_def stream_on_def Let_def)

lemma generateTarGz_tar:
  "tar (generateTarGz e ds sch) =
     (if length ds < turns sch then pack_finalize (loop_pack e tar_pack ds)
      else loop_pack e tar_pack (take (turns sch) ds))"
  by (simp add: generateTarGz_def run_tar setup_fields)

lemma loop_pack_entries:
  "loop_pack e pk ds =
     pk\<lparr>entries := entries pk @ concat (map (\<lambda>d. entries (snd (packEntry e tar_pack d))) ds)\<rparr>"
proof (induction ds arbitrary: pk)
  case Nil
  show ?case by (simp add: loop_pack_Nil)
next
  case (Cons d ds)
  show ?case
    unfolding loop_pack_Cons Cons.IH [of "snd (packEntry e pk d)"]
    by (subst packEntry_frame, subst (2) packEntry_frame) simp
qed

lemma entries_pack_finalize: "entries (pack_finalize pk) = entries pk"
  by (simp add: pack_finalize_def)

lemma appended_names:
  "map (\<lambda>(h, c). (h_name h, Inr c)) (concat (map (\<lambda>d. entries (snd (packEntry e tar_pack d))) ds)) =
   map (\<lambda>d. (name d, readFileSync (files e) (fqp d)))
     (filter (\<lambda>d. fst (packEntry e tar_pack d) = Resolved (JBool True)) ds)"
proof (induction ds)
  case Nil
  show ?case by simp
next
  case (Cons d ds)
  show ?case
  proof (cases "fst (packEntry e tar_pack d) = Resolved (JBool True)")
    case True
    from packEntry_appended [OF True] obtain h c where
      "entries (snd (packEntry e tar_pack d)) = [(h, c)]" "h_name h = name d"
      "readFileSync (files e) (fqp d) = Inr c"
      by blast
    with True Cons.IH show ?thesis by simp
  next
    case False
    with packEntry_not_appended [OF False] Cons.IH show ?thesis by simp
  qed
qed

text \<open>
  C8: at every moment of a build the entries of the pack are, in the order of the
  descriptor list, those of the descriptors visited so far that were packed: each entry
  carries its descriptor's name and the content read from its descriptor's path. The
  loop visits one descriptor per turn, so an entry is complete before the next descriptor
  is read, and no entry is moved.
\<close>

theorem entries_follow_descriptor_order:
  "map (\<lambda>(h, c). (h_name h, Inr c)) (entries (tar (generateTarGz e ds sch))) =
   map (\<lambda>d. (name d, readFileSync (files e) (fqp d)))
     (filter (\<lambda>d. fst (packEntry e tar_pack d) = Resolved (JBool True)) (take (turns sch) ds))"
proof -
  have "entries (tar (generateTarGz e ds sch)) =
      concat (map (\<lambda>d. entries (snd (packEntry e tar_pack d))) (take (turns sch) ds))"
    by (simp add: generateTarGz_tar loop_pack_entries entries_pack_finalize tar_pack_def)
  then show ?thesis
    by (simp only: appended_names)
qed

section \<open>Reproducible archives\<close>

lemma packEntry_snd_cong:
  assumes "name d1 = name d2"
    and "readFileSync (files e1) (fqp d1) = readFileSync (files e2) (fqp d2)"
    and "tar_entry_error e1 = tar_entry_error e2"
  shows "snd (packEntry e1 pk d1) = snd (packEntry e2 pk d2)"
  using assms
  by (simp add: packEntry_def pack_entry_def Let_def split: sum.splits option.splits)

lemma loop_pack_cong:
  assumes "list_all2 (\<lambda>d1 d2. name d1 = name d2 \<and>
             readFileSync (files e1) (fqp d1) = readFileSync (files e2) (fqp d2)) ds1 ds2"
    and "tar_entry_error e1 = tar_entry_error e2"
  shows "loop_pack e1 pk ds1 = loop_pack e2 pk ds2"
  using assms(1)
proof (induction ds1 ds2 arbitrary: pk rule: list_all2_induct)
  case Nil
  show ?case by (simp add: loop_pack_Nil)
next
  case (Cons d1 ds1 d2 ds2)
  have "snd (packEntry e1 pk d1) = snd (packEntry e2 pk d2)"
    using Cons.hyps(1) assms(2) by (intro packEntry_snd_cong) simp_all
  with Cons.IH show ?case
    by (simp add: loop_pack_Cons)
qed

text \<open>
  C1: two builds whose descriptor lists carry the same logical names in the same order,
  and whose files hold the same bytes, send the same bytes to the destination, whatever
  the paths and the timestamps of the files and however the event loop interleaves the
  two builds with their streams (both run to the same turn, or both to completion). The
  tar and gzip encoders are functions of what the packager hands them.
\<close>

theorem reproducible_archive:
  assumes same: "list_all2 (\<lambda>d1 d2. name d1 = name d2 \<and>
             readFileSync (files e1) (fqp d1) = readFileSync (files e2) (fqp d2)) ds1 ds2"
    and lib: "tar_entry_error e1 = tar_entry_error e2"
    and sched: "turns sch1 = turns sch2 \<or> (length ds1 < turns sch1 \<and> length ds2 < turns sch2)"
  shows "dest_bytes encode_entry end_marker gzip (generateTarGz e1 ds1 sch1) =
         dest_bytes encode_entry end_marker gzip (generateTarGz e2 ds2 sch2)"
proof -
  have len: "length ds1 = length ds2"
    using same by (rule list_all2_lengthD)
  have whole: "loop_pack e1 tar_pack ds1 = loop_pack e2 tar_pack ds2"
    using same lib by (rule loop_pack_cong)
  have part: "loop_pack e1 tar_pack (take k ds1) = loop_pack e2 tar_pack (take k ds2)" for k
    using list_all2_takeI [OF same] lib by (rule loop_pack_cong)
  have "tar (generateTarGz e1 ds1 sch1) = tar (generateTarGz e2 ds2 sch2)"
    using sched len whole part by (auto simp: generateTarGz_tar)
  then show ?thesis
    by (simp add: dest_bytes_def)
qed

theorem reproducible_archive_witness:
  "\<forall>encode_entry end_marker gzip.
     dest_bytes encode_entry end_marker gzip
       (generateTarGz example_env
          [\<lparr>name = ''src/main.go'', fqp = ''/cc/main.go''\<rparr>, \<lparr>name = ''src/empty.go'', fqp = ''/cc/empty.go''\<rparr>]
          [Turn, Turn, Turn, Emit DestStream Finish]) =
     dest_bytes encode_entry end_marker gzip
       (generateTarGz touched_env
          [\<lparr>name = ''src/main.go'', fqp = ''/build/cc/main.go''\<rparr>,
           \<lparr>name = ''src/empty.go'', fqp = ''/build/cc/empty.go''\<rparr>]
          [Turn, Emit PackStream DataEvent, Turn, Turn, Emit DestStream Finish])"
proof -
  let ?ds1 = "[\<lparr>name = ''src/main.go'', fqp = ''/cc/main.go''\<rparr>, \<lparr>name = ''src/empty.go'', fqp = ''/cc/empty.go''\<rparr>]"
  let ?ds2 = "[\<lparr>name = ''src/main.go'', fqp = ''/build/cc/main.go''\<rparr>,
           \<lparr>name = ''src/empty.go'', fqp = ''/build/cc/empty.go''\<rparr>]"
  let ?sch1 = "[Turn, Turn, Turn, Emit DestStream Finish]"
  let ?sch2 = "[Turn, Emit PackStream DataEvent, Turn, Turn, Emit DestStream Finish]"
  have same: "list_all2 (\<lambda>d1 d2. name d1 = name d2 \<and>
       readFileSync (files example_env) (fqp d1) = readFileSync (files touched_env) (fqp d2)) ?ds1 ?ds2"
    by code_simp
  have lib: "tar_entry_error example_env = tar_entry_error touched_env"
    by (simp add: example_env_def touched_env_def)
  have sched: "turns ?sch1 = turns ?sch2 \<or> (length ?ds1 < turns ?sch1 \<and> length ?ds2 < turns ?sch2)"
    by (simp add: turns_def)
  show ?thesis
    using reproducible_archive [OF same lib sched] by blast
qed

section \<open>The header of a packed entry\<close>

text \<open>
  C2: when \<open>packEntry\<close> resolves, it has appended one entry to the pack; the entry's header
  has the descriptor's name, the mode \<^verbatim>\<open>0o100644\<close> (file type: regular file; permission
  bits \<^verbatim>\<open>0644\<close>: owner 6 = rw, group 4 = r, other 4 = r), and \<^verbatim>\<open>atime\<close>, \<^verbatim>\<open>mtime\<close> and
  \<^verbatim>\<open>ctime\<close> all \<^verbatim>\<open>new Date(0)\<close>, the Unix epoch.
\<close>

theorem packed_header_mode_and_times:
  assumes "packEntry e pk desc = (Resolved v, pk')"
  shows "\<exists>hdr c. entries pk' = entries pk @ [(hdr, c)] \<and> h_name hdr = name desc \<and>
           h_mode hdr = mode_0o100644 \<and>
           mode_type (h_mode hdr) = S_IFREG \<and>
           mode_perm (h_mode hdr) = 6 * 64 + 4 * 8 + 4 \<and>
           h_atime hdr = JDate 0 \<and> h_mtime hdr = JDate 0 \<and> h_ctime hdr = JDate 0"
proof -
  have bits: "mode_type mode_0o100644 = S_IFREG" "mode_perm mode_0o100644 = 6 * 64 + 4 * 8 + 4"
    by (simp_all add: mode_type_def mode_perm_def mode_0o100644_def S_IFREG_def)
  from assms show ?thesis
    by (auto simp: packEntry_def pack_entry_def Let_def bits
        split: sum.splits option.splits if_splits)
qed

theorem packed_header_mode_and_times_witness:
  "\<exists>hdr c. entries (snd (packEntry example_env tar_pack \<lparr>name = ''src/main.go'', fqp = ''/cc/main.go''\<rparr>)) =
       entries tar_pack @ [(hdr, c)] \<and> h_name hdr = ''src/main.go'' \<and>
       h_mode hdr = 33188 \<and> mode_type (h_mode hdr) = 32768 \<and> mode_perm (h_mode hdr) = 420 \<and>
       h_atime hdr = JDate 0 \<and> h_mtime hdr = JDate 0 \<and> h_ctime hdr = JDate 0"
proof -
  let ?d = "\<lparr>name = ''src/main.go'', fqp = ''/cc/main.go''\<rparr>"
  have ok: "fst (packEntry example_env tar_pack ?d) = Resolved (JBool True)"
    by code_simp
  then have "packEntry example_env tar_pack ?d =
      (Resolved (JBool True), snd (packEntry example_env tar_pack ?d))"
    by (metis prod.collapse)
  from packed_header_mode_and_times [OF this] show ?thesis
    by (simp add: mode_0o100644_def S_IFREG_def)
qed

text \<open>
  C3: the header's \<^verbatim>\<open>size\<close> is \<^verbatim>\<open>content.size\<close>, and a Buffer has no property of that name
  (its byte length is \<^verbatim>\<open>length\<close>): for a file of twelve bytes the header that \<open>packEntry\<close>
  builds has \<^verbatim>\<open>size\<close> \<^verbatim>\<open>undefined\<close>, not 12.
\<close>

theorem header_size_is_undefined:
  "packEntry example_env tar_pack \<lparr>name = ''src/main.go'', fqp = ''/cc/main.go''\<rparr> =
     (Resolved (JBool True),
      \<lparr>entries = [(\<lparr>h_name = ''src/main.go'', h_size = JUndefined, h_mode = 33188,
                      h_atime = JDate 0, h_mtime = JDate 0, h_ctime = JDate 0\<rparr>,
                    JBuffer ''package main'')],
       finalized = False\<rparr>) \<and>
   JUndefined \<noteq> JNum (int (length ''package main''))"
  by code_simp

section \<open>Reads that fail, and empty files\<close>

text \<open>
  C5, as the claim states it, fails: reading an empty file gives an empty Buffer, which is
  an object and so truthy; \<open>packEntry\<close> appends an entry with no content and resolves.
\<close>

theorem empty_file_is_packed:
  "readFileSync (files example_env) ''/cc/empty.go'' = Inr (JBuffer []) \<and>
   packEntry example_env tar_pack \<lparr>name = ''src/empty.go'', fqp = ''/cc/empty.go''\<rparr> =
     (Resolved (JBool True),
      \<lparr>entries = [(\<lparr>h_name = ''src/empty.go'', h_size = JUndefined, h_mode = 33188,
                      h_atime = JDate 0, h_mtime = JDate 0, h_ctime = JDate 0\<rparr>,
                    JBuffer [])],
       finalized = False\<rparr>)"
  by code_simp

text \<open>
  C5, amended: \<open>packEntry\<close> rejects, with the error thrown, exactly when \<^verbatim>\<open>readFileSync\<close>
  throws (a missing or unreadable file), and leaves the pack as it was. Whenever
  \<^verbatim>\<open>readFileSync\<close> returns a Buffer, of any length, zero included, it appends an entry named
  as the descriptor with that Buffer as content, and resolves (unless the tar library
  reports an error of its own).
\<close>

theorem packEntry_rejects_only_thrown_reads:
  "(readFileSync (files e) (fqp desc) = Inl err \<longrightarrow> packEntry e pk desc = (Rejected err, pk)) \<and>
   (readFileSync (files e) (fqp desc) = Inr (JBuffer b) \<longrightarrow>
      (\<exists>hdr. h_name hdr = name desc \<and>
         (tar_entry_error e hdr (JBuffer b) = None \<longrightarrow>
            packEntry e pk desc =
              (Resolved (JBool True), pk\<lparr>entries := entries pk @ [(hdr, JBuffer b)]\<rparr>))))"
proof (intro conjI impI)
  assume "readFileSync (files e) (fqp desc) = Inl err"
  then show "packEntry e pk desc = (Rejected err, pk)"
    by (simp add: packEntry_def)
next
  let ?hdr = "\<lparr>h_name = name desc, h_size = JUndefined, h_mode = mode_0o100644,
                h_atime = JDate 0, h_mtime = JDate 0, h_ctime = JDate 0\<rparr>"
  assume r: "readFileSync (files e) (fqp desc) = Inr (JBuffer b)"
  have "tar_entry_error e ?hdr (JBuffer b) = None \<Longrightarrow>
      packEntry e pk desc = (Resolved (JBool True), pk\<lparr>entries := entries pk @ [(?hdr, JBuffer b)]\<rparr>)"
    using r by (simp add: packEntry_def pack_entry_def Let_def)
  moreover have "h_name ?hdr = name desc"
    by simp
  ultimately show "\<exists>hdr. h_name hdr = name desc \<and>
         (tar_entry_error e hdr (JBuffer b) = None \<longrightarrow>
            packEntry e pk desc =
              (Resolved (JBool True), pk\<lparr>entries := entries pk @ [(hdr, JBuffer b)]\<rparr>))"
    by (intro exI [of _ ?hdr] conjI impI)
qed

theorem packEntry_rejects_only_thrown_reads_witness:
  "packEntry example_env tar_pack \<lparr>name = ''src/gone.go'', fqp = ''/cc/gone.go''\<rparr> =
     (Rejected (SystemError ''ENOENT''), tar_pack) \<and>
   packEntry example_env tar_pack \<lparr>name = ''src/secret.go'', fqp = ''/cc/secret.go''\<rparr> =
     (Rejected (SystemError ''EACCES''), tar_pack) \<and>
   (\<exists>hdr. h_name hdr = ''src/empty.go'' \<and>
      packEntry example_env tar_pack \<lparr>name = ''src/empty.go'', fqp = ''/cc/empty.go''\<rparr> =
        (Resolved (JBool True), tar_pack\<lparr>entries := entries tar_pack @ [(hdr, JBuffer [])]\<rparr>))"
proof -
  have r1: "readFileSync (files example_env) ''/cc/gone.go'' = Inl (SystemError ''ENOENT'')"
    by code_simp
  have r2: "readFileSync (files example_env) ''/cc/secret.go'' = Inl (SystemError ''EACCES'')"
    by code_simp
  have r3: "readFileSync (files example_env) ''/cc/empty.go'' = Inr (JBuffer [])"
    by code_simp
  have lib: "tar_entry_error example_env hdr c = None" for hdr c
    by (simp add: example_env_def)
  show ?thesis
    using packEntry_rejects_only_thrown_reads [of example_env "\<lparr>name = ''src/gone.go'', fqp = ''/cc/gone.go''\<rparr>" "SystemError ''ENOENT''" tar_pack "[]"]
      packEntry_rejects_only_thrown_reads [of example_env "\<lparr>name = ''src/secret.go'', fqp = ''/cc/secret.go''\<rparr>" "SystemError ''EACCES''" tar_pack "[]"]
      packEntry_rejects_only_thrown_reads [of example_env "\<lparr>name = ''src/empty.go'', fqp = ''/cc/empty.go''\<rparr>" "SystemError ''ENOENT''" tar_pack "[]"]
    by (simp add: r1 r2 r3 lib)
qed

text \<open>
  C4: the first descriptor's file is missing. The promise is rejected with the read error,
  but the loop goes on: the second descriptor is packed, the pack is finalized and the
  pipeline runs to the destination's \<^verbatim>\<open>finish\<close>. What reaches the destination is a complete
  archive without the first entry.
\<close>

theorem failed_read_still_finalizes:
  "promise (generateTarGz example_env
       [\<lparr>name = ''src/gone.go'', fqp = ''/cc/gone.go''\<rparr>, \<lparr>name = ''src/main.go'', fqp = ''/cc/main.go''\<rparr>]
       [Turn, Turn, Turn, Emit DestStream Finish]) = Rejected (SystemError ''ENOENT'') \<and>
   tar (generateTarGz example_env
       [\<lparr>name = ''src/gone.go'', fqp = ''/cc/gone.go''\<rparr>, \<lparr>name = ''src/main.go'', fqp = ''/cc/main.go''\<rparr>]
       [Turn, Turn, Turn, Emit DestStream Finish]) =
     \<lparr>entries = [(\<lparr>h_name = ''src/main.go'', h_size = JUndefined, h_mode = 33188,
                      h_atime = JDate 0, h_mtime = JDate 0, h_ctime = JDate 0\<rparr>,
                    JBuffer ''package main'')],
      finalized = True\<rparr>"
  by code_simp

section \<open>Errors of the pipeline\<close>

text \<open>
  C9: the \<^verbatim>\<open>finish\<close> and \<^verbatim>\<open>error\<close> listeners are registered on what the last \<^verbatim>\<open>pipe\<close>
  returns, the destination. An error of the gzip stream finds no listener: it is thrown,
  uncaught, and the promise stays pending; an error of the destination rejects it.
\<close>

theorem gzip_error_is_not_a_rejection:
  "promise (generateTarGz example_env [\<lparr>name = ''src/main.go'', fqp = ''/cc/main.go''\<rparr>]
       [Turn, Emit GzipStream (ErrorEvent (Error ''zlib'')), Turn]) = Pending \<and>
   uncaught (generateTarGz example_env [\<lparr>name = ''src/main.go'', fqp = ''/cc/main.go''\<rparr>]
       [Turn, Emit GzipStream (ErrorEvent (Error ''zlib'')), Turn]) = [Error ''zlib''] \<and>
   promise (generateTarGz example_env [\<lparr>name = ''src/main.go'', fqp = ''/cc/main.go''\<rparr>]
       [Turn, Emit DestStream (ErrorEvent (Error ''disk full'')), Turn]) = Rejected (Error ''disk full'')"
  by code_simp

section \<open>Metadata descriptors\<close>

lemma split_acc_nonempty: "split_acc c cur s \<noteq> []"
  by (induction s arbitrary: cur) auto

lemma join_str_Cons: "ys \<noteq> [] \<Longrightarrow> join_str (x # ys) d = x @ d @ join_str ys d"
  by (cases ys) simp_all

lemma join_split_acc:
  "join_str (split_acc c cur s) [d] = cur @ map (\<lambda>x. if x = c then d else x) s"
proof (induction s arbitrary: cur)
  case Nil
  show ?case by simp
next
  case (Cons x xs)
  show ?case
  proof (cases "x = c")
    case True
    then show ?thesis
      using Cons.IH [of "[]"] by (simp add: join_str_Cons split_acc_nonempty)
  next
    case False
    then show ?thesis
      using Cons.IH [of "cur @ [x]"] by simp
  qed
qed

lemma split_join_replaces: "join_str (split_str s c) [d] = map (\<lambda>x. if x = c then d else x) s"
  by (simp add: split_str_def join_split_acc)

lemma metadata_name_replaces:
  "metadata_name pm filePath p =
     map (\<lambda>c. if c = backslash then CHR ''/'' else c) (p_join pm ''META-INF'' (p_relative pm filePath p))"
  by (simp add: metadata_name_def split_join_replaces)

lemma walk_data:
  "foldl (walk_step pm filePath) (acc, p) (map Data ents) =
     (acc @ map (\<lambda>ent. \<lparr>name = metadata_name pm filePath (e_path ent), fqp = e_path ent\<rparr>)
              (filter (\<lambda>ent. e_isFile ent \<and> isMetadata pm (e_path ent)) ents), p)"
  by (induction ents arbitrary: acc) (simp_all add: Let_def)

text \<open>
  C6: on a POSIX host the separator is \<^verbatim>\<open>/\<close> and a backslash may be part of a file
  name. For the regular file \<^verbatim>\<open>a\b.json\<close> below the metadata root the logical name is to
  be \<^verbatim>\<open>META-INF/a\b.json\<close>; the replacement of backslashes, commented as being for
  Windows style paths, names the descriptor \<^verbatim>\<open>META-INF/a/b.json\<close>, the name that the file
  \<^verbatim>\<open>b.json\<close> in the directory \<^verbatim>\<open>a\<close> gets as well.
\<close>

theorem backslash_in_posix_file_name:
  "findMetadataDescriptors (posix_path ''/srv'') ''/srv/meta''
     [Data \<lparr>e_path = ''/srv/meta'', e_isFile = False\<rparr>,
      Data \<lparr>e_path = ''/srv/meta/a'' @ [backslash] @ ''b.json'', e_isFile = True\<rparr>,
      Data \<lparr>e_path = ''/srv/meta/a'', e_isFile = False\<rparr>,
      Data \<lparr>e_path = ''/srv/meta/a/b.json'', e_isFile = True\<rparr>,
      End] =
     Resolved [\<lparr>name = ''META-INF/a/b.json'', fqp = ''/srv/meta/a'' @ [backslash] @ ''b.json''\<rparr>,
               \<lparr>name = ''META-INF/a/b.json'', fqp = ''/srv/meta/a/b.json''\<rparr>] \<and>
   isMetadata (posix_path ''/srv'') (''/srv/meta/a'' @ [backslash] @ ''b.json'') \<and>
   p_relative (posix_path ''/srv'') ''/srv/meta'' (''/srv/meta/a'' @ [backslash] @ ''b.json'') =
     ''a'' @ [backslash] @ ''b.json'' \<and>
   spec_logical_name (posix_path ''/srv'') (''a'' @ [backslash] @ ''b.json'') =
     ''META-INF/a'' @ [backslash] @ ''b.json'' \<and>
   ''META-INF/a/b.json'' \<noteq> ''META-INF/a'' @ [backslash] @ ''b.json''"
  by code_simp

text \<open>
  X8: when the walk ends without an error, the promise resolves to one descriptor for each
  regular file the walk reported for which \<open>isMetadata\<close> holds, in the order of the walk;
  its \<^verbatim>\<open>fqp\<close> is the file's path and its name is what \<^verbatim>\<open>path.join\<close> makes of
  \<^verbatim>\<open>META-INF\<close> and the path relative to the root, after the replacement of backslashes.
\<close>

theorem walk_emits_metadata_descriptors:
  "findMetadataDescriptors pm filePath (map Data ents @ [End]) =
     Resolved (map (\<lambda>ent. \<lparr>name = map (\<lambda>c. if c = backslash then CHR ''/'' else c)
                                   (p_join pm ''META-INF'' (p_relative pm filePath (e_path ent))),
                           fqp = e_path ent\<rparr>)
                (filter (\<lambda>ent. e_isFile ent \<and> isMetadata pm (e_path ent)) ents))"
  by (simp add: findMetadataDescriptors_def walk_data resolve_def metadata_name_replaces)

section \<open>Settling the promise of \<^verbatim>\<open>generateTarGz\<close>\<close>

lemma settled_reject: "p \<noteq> Pending \<Longrightarrow> reject p err = p"
  by (cases p) (simp_all add: reject_def)

lemma settled_resolve: "p \<noteq> Pending \<Longrightarrow> resolve p v = p"
  by (cases p) (simp_all add: resolve_def)

lemma settled_run_listener: "p \<noteq> Pending \<Longrightarrow> run_listener l ev p = p"
  by (cases "(l, ev, p)" rule: run_listener.cases) (simp_all add: settled_reject settled_resolve)

lemma settled_listeners: "p \<noteq> Pending \<Longrightarrow> foldl (\<lambda>p l. run_listener l ev p) p ls = p"
  by (induction ls) (simp_all add: settled_run_listener)

lemma settled_emit: "promise s \<noteq> Pending \<Longrightarrow> promise (emit s em ev) = promise s"
  by (simp add: emit_def Let_def settled_listeners split: event.splits)

lemma settled_turn: "promise s \<noteq> Pending \<Longrightarrow> promise (executor_turn e s) = promise s"
  by (simp add: executor_turn_def settled_reject split: list.splits prod.splits promise.splits)

lemma settled_step: "promise s \<noteq> Pending \<Longrightarrow> promise (step e s a) = promise s"
  by (cases a) (simp_all add: settled_emit settled_turn)

lemma settled_run: "promise s \<noteq> Pending \<Longrightarrow> promise (foldl (step e) s sch) = promise s"
  by (induction sch arbitrary: s) (simp_all add: settled_step)

lemma listeners_turn: "listeners (executor_turn e s) = listeners s"
  by (simp add: executor_turn_def split: list.splits prod.splits promise.splits)

lemma listeners_step: "listeners (step e s a) = listeners s"
  by (cases a) (simp_all add: listeners_turn emit_frame)

lemma listeners_run: "listeners (foldl (step e) s sch) = listeners s"
  by (induction sch arbitrary: s) (simp_all add: listeners_step)

lemma listeners_generateTarGz:
  "listeners (generateTarGz e ds sch) = [(DestStream, ''finish'', OnFinish), (DestStream, ''error'', OnError)]"
  by (simp add: generateTarGz_def listeners_run setup_fields)

lemma generateTarGz_append:
  "generateTarGz e ds (pre @ post) = foldl (step e) (generateTarGz e ds pre) post"
  by (simp add: generateTarGz_def)

lemma emit_other_stream:
  assumes "listeners s = [(DestStream, ''finish'', OnFinish), (DestStream, ''error'', OnError)]"
    and "em \<noteq> DestStream"
  shows "promise (emit s em ev) = promise s"
  using assms by (simp add: emit_def Let_def split: event.splits)

lemma emit_dest_error:
  assumes "listeners s = [(DestStream, ''finish'', OnFinish), (DestStream, ''error'', OnError)]"
  shows "promise (emit s DestStream (ErrorEvent err)) = reject (promise s) err"
  using assms by (simp add: emit_def Let_def)

lemma emit_not_finish:
  assumes "listeners s = [(DestStream, ''finish'', OnFinish), (DestStream, ''error'', OnError)]"
    and "\<not> (em = DestStream \<and> ev = Finish)"
    and "promise s \<noteq> Resolved v"
  shows "promise (emit s em ev) \<noteq> Resolved v"
  using assms
  by (cases ev; cases em; cases "promise s") (simp_all add: emit_def Let_def reject_def)

lemma turn_not_resolved:
  "promise s \<noteq> Resolved v \<Longrightarrow> promise (executor_turn e s) \<noteq> Resolved v"
  by (cases "promise s")
    (auto simp: executor_turn_def reject_def split: list.splits prod.splits promise.splits)

lemma run_not_resolved:
  assumes "listeners s = [(DestStream, ''finish'', OnFinish), (DestStream, ''error'', OnError)]"
    and "Emit DestStream Finish \<notin> set sch"
    and "promise s \<noteq> Resolved v"
  shows "promise (foldl (step e) s sch) \<noteq> Resolved v"
  using assms
proof (induction sch arbitrary: s)
  case Nil
  then show ?case by simp
next
  case (Cons a sch)
  have "promise (step e s a) \<noteq> Resolved v"
  proof (cases a)
    case Turn
    with Cons.prems(3) show ?thesis by (simp add: turn_not_resolved)
  next
    case (Emit em ev)
    with Cons.prems have "\<not> (em = DestStream \<and> ev = Finish)" by auto
    with Emit Cons.prems(1,3) show ?thesis by (simp add: emit_not_finish)
  qed
  moreover have "listeners (step e s a) = listeners s"
    by (rule listeners_step)
  ultimately show ?case
    using Cons.IH [of "step e s a"] Cons.prems by simp
qed

text \<open>
  X1: the promise of \<open>generateTarGz\<close> is resolved by the destination's \<^verbatim>\<open>finish\<close> listener
  and by nothing else: as long as the destination has not emitted \<^verbatim>\<open>finish\<close>, the promise
  is not resolved, whatever else has happened.
\<close>

theorem resolves_only_after_destination_finish:
  assumes "Emit DestStream Finish \<notin> set sch"
  shows "promise (generateTarGz e ds sch) \<noteq> Resolved v"
  unfolding generateTarGz_def
  using assms by (intro run_not_resolved) (simp_all add: setup_fields)

theorem resolves_only_after_destination_finish_witness:
  "\<forall>v. promise (generateTarGz example_env [\<lparr>name = ''src/main.go'', fqp = ''/cc/main.go''\<rparr>]
          [Turn, Emit GzipStream Finish, Turn, Emit PackStream EndEvent]) \<noteq> Resolved v"
proof -
  have "Emit DestStream Finish \<notin> set [Turn, Emit GzipStream Finish, Turn, Emit PackStream EndEvent]"
    by simp
  from resolves_only_after_destination_finish [OF this] show ?thesis
    by blast
qed

text \<open>
  X2: an \<^verbatim>\<open>error\<close> of the destination rejects a promise that is still pending, with that
  error, and the promise stays rejected.
\<close>

theorem destination_error_rejects:
  assumes "promise (generateTarGz e ds pre) = Pending"
  shows "promise (generateTarGz e ds (pre @ Emit DestStream (ErrorEvent err) # post)) = Rejected err"
proof -
  let ?s = "generateTarGz e ds pre"
  have "promise (emit ?s DestStream (ErrorEvent err)) = Rejected err"
    using assms by (simp add: emit_dest_error listeners_generateTarGz reject_def)
  then have "promise (foldl (step e) (emit ?s DestStream (ErrorEvent err)) post) = Rejected err"
    by (simp add: settled_run)
  then show ?thesis
    by (simp add: generateTarGz_append)
qed

theorem destination_error_rejects_witness:
  "promise (generateTarGz example_env [\<lparr>name = ''src/main.go'', fqp = ''/cc/main.go''\<rparr>]
      ([Turn] @ Emit DestStream (ErrorEvent (Error ''EIO'')) # [Turn, Emit DestStream Finish])) =
   Rejected (Error ''EIO'')"
proof -
  have "promise (generateTarGz example_env [\<lparr>name = ''src/main.go'', fqp = ''/cc/main.go''\<rparr>] [Turn]) = Pending"
    by code_simp
  from destination_error_rejects [OF this] show ?thesis .
qed

text \<open>
  X3: no event of the pack stream or of the gzip stream changes the promise: their errors
  are not turned into a rejection.
\<close>

theorem upstream_events_never_settle:
  assumes "em \<noteq> DestStream"
  shows "promise (generateTarGz e ds (pre @ [Emit em ev])) = promise (generateTarGz e ds pre)"
  using assms by (simp add: generateTarGz_append emit_other_stream listeners_generateTarGz)

theorem upstream_events_never_settle_witness:
  "promise (generateTarGz example_env [\<lparr>name = ''src/main.go'', fqp = ''/cc/main.go''\<rparr>]
      ([Turn] @ [Emit GzipStream (ErrorEvent (Error ''zlib''))])) =
   promise (generateTarGz example_env [\<lparr>name = ''src/main.go'', fqp = ''/cc/main.go''\<rparr>] [Turn])"
proof -
  have "GzipStream \<noteq> DestStream"
    by simp
  from upstream_events_never_settle [OF this] show ?thesis .
qed

lemma executor_turn_Cons_promise:
  "todo s = d # rest \<Longrightarrow>
   promise (executor_turn e s) =
     (case fst (packEntry e (tar s) d) of Rejected err \<Rightarrow> reject (promise s) err | _ \<Rightarrow> promise s)"
  by (simp add: executor_turn_def split: prod.splits promise.splits)

lemma reject_unresolved:
  "p = Pending \<or> (\<exists>x. p = Rejected x) \<Longrightarrow> \<exists>x. reject p err = Rejected x"
  by (auto simp: reject_def)

lemma loop_rejects:
  assumes "todo s = ds"
    and "d \<in> set ds"
    and "fst (packEntry e tar_pack d) = Rejected err"
    and "promise s = Pending \<or> (\<exists>x. promise s = Rejected x)"
  shows "\<exists>x. promise (foldl (step e) s (replicate (length ds) Turn)) = Rejected x"
  using assms
proof (induction ds arbitrary: s)
  case Nil
  then show ?case by simp
next
  case (Cons d' rest)
  let ?s' = "executor_turn e s"
  have todo': "todo ?s' = rest"
    using Cons.prems(1) by (rule executor_turn_Cons_todo)
  have prom': "promise ?s' =
      (case fst (packEntry e tar_pack d') of Rejected err \<Rightarrow> reject (promise s) err | _ \<Rightarrow> promise s)"
    using executor_turn_Cons_promise [OF Cons.prems(1), of e]
      packEntry_fst_indep [of e "tar s" d' tar_pack] by simp
  show ?case
  proof (cases "d = d'")
    case True
    with prom' Cons.prems(3) have "promise ?s' = reject (promise s) err"
      by simp
    with reject_unresolved [OF Cons.prems(4)] obtain x where x: "promise ?s' = Rejected x"
      by metis
    then have "promise (foldl (step e) ?s' (replicate (length rest) Turn)) = Rejected x"
      by (simp add: settled_run)
    then show ?thesis by auto
  next
    case False
    with Cons.prems(2) have mem: "d \<in> set rest" by simp
    have "promise ?s' = Pending \<or> (\<exists>x. promise ?s' = Rejected x)"
      using prom' Cons.prems(4) reject_unresolved [OF Cons.prems(4)]
      by (cases "fst (packEntry e tar_pack d')") auto
    from Cons.IH [OF todo' mem Cons.prems(3) this] show ?thesis
      by simp
  qed
qed

lemma packEntry_thrown:
  "readFileSync (files e) (fqp d) = Inl err \<Longrightarrow> fst (packEntry e pk d) = Rejected err"
  by (simp add: packEntry_def)

lemma appended_count:
  "length (concat (map (\<lambda>d. entries (snd (packEntry e tar_pack d))) ds)) =
   length (filter (\<lambda>d. fst (packEntry e tar_pack d) = Resolved (JBool True)) ds)"
proof -
  have "length (map (\<lambda>(h, c). (h_name h, Inr c :: js_error + jsval))
          (concat (map (\<lambda>d. entries (snd (packEntry e tar_pack d))) ds))) =
        length (map (\<lambda>d. (name d, readFileSync (files e) (fqp d)))
          (filter (\<lambda>d. fst (packEntry e tar_pack d) = Resolved (JBool True)) ds))"
    by (simp only: appended_names)
  then show ?thesis by simp
qed

text \<open>
  X4: when the file of some descriptor cannot be read, a build that runs through all its
  turns ends with the promise rejected, and with the pack finalized all the same, holding
  fewer entries than there are descriptors.
\<close>

theorem failed_read_rejects_and_finalizes:
  assumes "d \<in> set ds"
    and "readFileSync (files e) (fqp d) = Inl err"
  shows "(\<exists>x. promise (generateTarGz e ds (replicate (Suc (length ds)) Turn @ post)) = Rejected x) \<and>
         finalized (tar (generateTarGz e ds (replicate (Suc (length ds)) Turn @ post))) \<and>
         length (entries (tar (generateTarGz e ds (replicate (Suc (length ds)) Turn @ post)))) < length ds"
proof -
  let ?sch = "replicate (Suc (length ds)) Turn @ post"
  have rej: "fst (packEntry e tar_pack d) = Rejected err"
    using assms(2) by (rule packEntry_thrown)
  have "\<exists>x. promise (foldl (step e) (generateTarGz_setup ds) (replicate (length ds) Turn)) = Rejected x"
    using assms(1) rej by (intro loop_rejects) (simp_all add: setup_fields)
  then obtain x where x: "promise (generateTarGz e ds (replicate (length ds) Turn)) = Rejected x"
    by (auto simp: generateTarGz_def)
  have "promise (foldl (step e) (generateTarGz e ds (replicate (length ds) Turn)) (Turn # post)) =
      promise (generateTarGz e ds (replicate (length ds) Turn))"
    using x by (intro settled_run) simp
  with x have "promise (foldl (step e) (generateTarGz e ds (replicate (length ds) Turn)) (Turn # post)) = Rejected x"
    by simp
  moreover have "?sch = replicate (length ds) Turn @ (Turn # post)"
    by (simp add: replicate_append_same)
  ultimately have p: "\<exists>x. promise (generateTarGz e ds ?sch) = Rejected x"
    by (metis generateTarGz_append)
  have "length ds < turns ?sch"
    by (simp add: turns_def)
  then have t: "tar (generateTarGz e ds ?sch) = pack_finalize (loop_pack e tar_pack ds)"
    by (simp add: generateTarGz_tar)
  have f: "finalized (tar (generateTarGz e ds ?sch))"
    unfolding t by (simp add: pack_finalize_def)
  have "\<not> fst (packEntry e tar_pack d) = Resolved (JBool True)"
    using rej by simp
  with assms(1) have "length (filter (\<lambda>d. fst (packEntry e tar_pack d) = Resolved (JBool True)) ds) < length ds"
    by (intro length_filter_less)
  moreover have "entries tar_pack = []"
    by (simp add: tar_pack_def)
  ultimately have n: "length (entries (tar (generateTarGz e ds ?sch))) < length ds"
    unfolding t by (simp add: entries_pack_finalize loop_pack_entries appended_count)
  from p f n show ?thesis by blast
qed

theorem failed_read_rejects_and_finalizes_witness:
  "(\<exists>x. promise (generateTarGz example_env
            [\<lparr>name = ''src/secret.go'', fqp = ''/cc/secret.go''\<rparr>, \<lparr>name = ''src/main.go'', fqp = ''/cc/main.go''\<rparr>]
            (replicate (Suc (length [\<lparr>name = ''src/secret.go'', fqp = ''/cc/secret.go''\<rparr>,
                                      \<lparr>name = ''src/main.go'', fqp = ''/cc/main.go''\<rparr>])) Turn @
             [Emit DestStream Finish])) = Rejected x) \<and>
   finalized (tar (generateTarGz example_env
            [\<lparr>name = ''src/secret.go'', fqp = ''/cc/secret.go''\<rparr>, \<lparr>name = ''src/main.go'', fqp = ''/cc/main.go''\<rparr>]
            (replicate (Suc (length [\<lparr>name = ''src/secret.go'', fqp = ''/cc/secret.go''\<rparr>,
                                      \<lparr>name = ''src/main.go'', fqp = ''/cc/main.go''\<rparr>])) Turn @
             [Emit DestStream Finish])))"
proof -
  let ?d = "\<lparr>name = ''src/secret.go'', fqp = ''/cc/secret.go''\<rparr>"
  let ?ds = "[?d, \<lparr>name = ''src/main.go'', fqp = ''/cc/main.go''\<rparr>]"
  have mem: "?d \<in> set ?ds"
    by simp
  have thrown: "readFileSync (files example_env) (fqp ?d) = Inl (SystemError ''EACCES'')"
    by code_simp
  from failed_read_rejects_and_finalizes [OF mem thrown, of "[Emit DestStream Finish]"]
  show ?thesis
    by blast
qed

section \<open>Errors of the walk\<close>

lemma walk_settled:
  "p \<noteq> Pending \<Longrightarrow> snd (foldl (walk_step pm filePath) (acc, p) evs) = p"
proof (induction evs arbitrary: acc)
  case Nil
  show ?case by simp
next
  case (Cons ev evs)
  then show ?case
    by (cases ev) (simp_all add: settled_reject settled_resolve Let_def)
qed

text \<open>
  X5: when the walk reports an error before it ends, \<open>findMetadataDescriptors\<close> rejects
  with that error, whatever the walk reports afterwards.
\<close>

theorem walk_error_rejects:
  "findMetadataDescriptors pm filePath (map Data ents @ WalkError err # later) = Rejected err"
  by (simp add: findMetadataDescriptors_def walk_data reject_def walk_settled)

section \<open>Paths without a dot\<close>

lemma no_dot_startDot:
  assumes "n \<le> length path" and "CHR ''.'' \<notin> set path" and "startDot s = - 1"
  shows "startDot (extname_loop path n s) = - 1"
  using assms
proof (induction n arbitrary: s)
  case 0
  then show ?case by simp
next
  case (Suc i)
  then have "path ! i \<in> set path" by simp
  with Suc.prems(2) have nd: "path ! i \<noteq> CHR ''.''" by metis
  show ?case
  proof (cases "path ! i = CHR ''/''")
    case True
    with Suc show ?thesis by (simp add: Let_def)
  next
    case False
    with Suc nd show ?thesis by (simp add: Let_def)
  qed
qed

text \<open>
  X6: on a POSIX host a path without any dot has the empty extension, and is not metadata.
\<close>

theorem posix_extname_without_dot:
  assumes "CHR ''.'' \<notin> set path"
  shows "posix_extname path = [] \<and> \<not> isMetadata (posix_path cwd) path"
proof -
  have "startDot (extname_loop path (length path) ext_init) = - 1"
    using assms by (intro no_dot_startDot) (simp_all add: ext_init_def)
  then have "posix_extname path = []"
    by (simp add: posix_extname_def Let_def)
  then show ?thesis
    by (simp add: isMetadata_def posix_path_def Let_def)
qed

theorem posix_extname_without_dot_witness:
  "posix_extname ''src/cc/Makefile'' = [] \<and> \<not> isMetadata (posix_path ''/'') ''src/cc/Makefile''"
proof -
  have "CHR ''.'' \<notin> set ''src/cc/Makefile''"
    by simp
  from posix_extname_without_dot [OF this] show ?thesis .
qed

section \<open>Metadata names on a POSIX host\<close>

lemma split_acc_segment:
  "c \<notin> set x \<Longrightarrow> split_acc c cur (x @ rest) = split_acc c (cur @ x) rest"
  by (induction x arbitrary: cur) auto

lemma split_acc_join:
  assumes "cs \<noteq> []" and "\<forall>x\<in>set cs. c \<notin> set x"
  shows "split_acc c cur (join_str cs [c]) = (cur @ hd cs) # tl cs"
  using assms
proof (induction cs arbitrary: cur)
  case Nil
  then show ?case by simp
next
  case (Cons x xs)
  show ?case
  proof (cases xs)
    case Nil
    with Cons.prems show ?thesis
      using split_acc_segment [of c x cur "[]"] by simp
  next
    case (Cons y ys)
    have "split_acc c cur (x @ [c] @ join_str xs [c]) = split_acc c (cur @ x) ([c] @ join_str xs [c])"
      using Cons.prems by (intro split_acc_segment) simp
    also have "\<dots> = (cur @ x) # split_acc c [] (join_str xs [c])"
      by simp
    also have "split_acc c [] (join_str xs [c]) = ([] @ hd xs) # tl xs"
      using Cons.prems Cons by (intro Cons.IH) simp_all
    finally show ?thesis
      using Cons by simp
  qed
qed

lemma split_prefixed_join:
  assumes "c \<notin> set pre" and "cs \<noteq> []" and "\<forall>x\<in>set cs. c \<notin> set x"
  shows "split_str (pre @ [c] @ join_str cs [c]) c = pre # cs"
proof -
  have "split_acc c [] (pre @ [c] @ join_str cs [c]) = split_acc c ([] @ pre) ([c] @ join_str cs [c])"
    using assms(1) by (rule split_acc_segment)
  also have "\<dots> = pre # split_acc c [] (join_str cs [c])"
    by simp
  also have "split_acc c [] (join_str cs [c]) = ([] @ hd cs) # tl cs"
    using assms(2,3) by (rule split_acc_join)
  finally show ?thesis
    using assms(2) by (simp add: split_str_def)
qed

lemma normalize_clean:
  "\<forall>x\<in>set cs. clean_segment x \<Longrightarrow> normalize_parts a res cs = res @ cs"
  by (induction cs arbitrary: res) (simp_all add: clean_segment_def)

lemma join_str_nonempty:
  "cs \<noteq> [] \<Longrightarrow> \<forall>x\<in>set cs. x \<noteq> [] \<Longrightarrow> join_str cs d \<noteq> []"
  by (cases "(cs, d)" rule: join_str.cases) auto

lemma join_str_last:
  "cs \<noteq> [] \<Longrightarrow> \<forall>x\<in>set cs. x \<noteq> [] \<Longrightarrow> last (join_str cs d) = last (last cs)"
proof (induction cs)
  case Nil
  then show ?case by simp
next
  case (Cons x xs)
  show ?case
  proof (cases xs)
    case Nil
    then show ?thesis by simp
  next
    case (Cons y ys)
    with Cons.prems have ne: "join_str xs d \<noteq> []"
      by (intro join_str_nonempty) simp_all
    have "last (join_str xs d) = last (last xs)"
      using Cons Cons.prems by (intro Cons.IH) simp_all
    with ne Cons show ?thesis by simp
  qed
qed

lemma posix_join_META_INF:
  assumes "cs \<noteq> []" and "\<forall>x\<in>set cs. clean_segment x"
  shows "posix_join ''META-INF'' (join_str cs ''/'') = ''META-INF/'' @ join_str cs ''/''"
proof -
  let ?rel = "join_str cs ''/''"
  have ne: "\<forall>x\<in>set cs. x \<noteq> []" and free: "\<forall>x\<in>set cs. CHR ''/'' \<notin> set x"
    using assms(2) by (simp_all add: clean_segment_def)
  have rel: "?rel \<noteq> []"
    using assms(1) ne by (rule join_str_nonempty)
  have "last ?rel = last (last cs)"
    using assms(1) ne by (rule join_str_last)
  moreover have "last (last cs) \<in> set (last cs)" "last cs \<in> set cs"
    using assms(1) ne by simp_all
  ultimately have trailing: "last ?rel \<noteq> CHR ''/''"
    using free by metis
  have split: "split_str (''META-INF'' @ ''/'' @ ?rel) CHR ''/'' = ''META-INF'' # cs"
    using assms(1) free by (intro split_prefixed_join) simp_all
  have "clean_segment ''META-INF''"
    by (simp add: clean_segment_def)
  with assms(2) have norm: "normalize_parts True [] (''META-INF'' # cs) = ''META-INF'' # cs"
    using normalize_clean [of "''META-INF'' # cs" True "[]"] by simp
  have joined: "join_str (''META-INF'' # cs) ''/'' = ''META-INF'' @ ''/'' @ ?rel"
    using assms(1) by (cases cs) simp_all
  have "posix_normalize (''META-INF'' @ ''/'' @ ?rel) = ''META-INF'' @ ''/'' @ ?rel"
    unfolding posix_normalize_def Let_def split
    using rel trailing norm joined by simp
  with rel show ?thesis
    by (simp add: posix_join_def)
qed

lemma parts_of_absolute:
  assumes "\<forall>x\<in>set ps. clean_segment x"
  shows "normalize_parts False [] (split_str (''/'' @ join_str ps ''/'') CHR ''/'') = ps"
proof (cases "ps = []")
  case True
  then show ?thesis by (simp add: split_str_def)
next
  case False
  have free: "\<forall>x\<in>set ps. CHR ''/'' \<notin> set x"
    using assms by (simp add: clean_segment_def)
  have "split_str ([] @ ''/'' @ join_str ps ''/'') CHR ''/'' = [] # ps"
    using False free by (intro split_prefixed_join) simp_all
  then show ?thesis
    using normalize_clean [OF assms, of False "[]"] by simp
qed

lemma posix_resolve_absolute:
  assumes "\<forall>x\<in>set ps. clean_segment x"
  shows "posix_resolve cwd (''/'' @ join_str ps ''/'') = ''/'' @ join_str ps ''/''"
  using parts_of_absolute [OF assms] by (simp add: posix_resolve_def Let_def)

lemma common_prefix_append: "common_prefix_length rs (rs @ cs) = length rs"
proof (induction rs)
  case Nil
  show ?case by (cases cs) simp_all
next
  case (Cons r rs)
  then show ?case by simp
qed

lemma posix_relative_below:
  assumes "\<forall>x\<in>set rs. clean_segment x" and "\<forall>x\<in>set cs. clean_segment x" and "cs \<noteq> []"
  shows "posix_relative cwd (''/'' @ join_str rs ''/'') (''/'' @ join_str (rs @ cs) ''/'') =
         join_str cs ''/''"
proof -
  let ?from = "''/'' @ join_str rs ''/''"
  let ?to = "''/'' @ join_str (rs @ cs) ''/''"
  have all: "\<forall>x\<in>set (rs @ cs). clean_segment x"
    using assms(1,2) by auto
  have fparts: "normalize_parts False [] (split_str ?from CHR ''/'') = rs"
    using assms(1) by (rule parts_of_absolute)
  have tparts: "normalize_parts False [] (split_str ?to CHR ''/'') = rs @ cs"
    using all by (rule parts_of_absolute)
  have differ: "?from \<noteq> ?to"
  proof
    assume "?from = ?to"
    then have "normalize_parts False [] (split_str ?from CHR ''/'') =
        normalize_parts False [] (split_str ?to CHR ''/'')"
      by (simp only:)
    with fparts tparts assms(3) show False by simp
  qed
  have rf: "posix_resolve cwd ?from = ?from"
    using assms(1) by (rule posix_resolve_absolute)
  have rt: "posix_resolve cwd ?to = ?to"
    using all by (rule posix_resolve_absolute)
  show ?thesis
    unfolding posix_relative_def Let_def rf rt fparts tparts common_prefix_append
    using differ by simp
qed

text \<open>
  X7: on a POSIX host, for a metadata root \<^verbatim>\<open>/r1/.../rm\<close> and a regular \<^verbatim>\<open>.json\<close> file
  \<^verbatim>\<open>/r1/.../rm/c1/.../cn\<close> below it, \<open>findMetadataDescriptors\<close> emits the descriptor named
  \<^verbatim>\<open>META-INF/c1/.../cn\<close>, with every backslash inside a segment replaced by \<^verbatim>\<open>/\<close>.
\<close>

theorem posix_metadata_descriptor:
  assumes "\<forall>x\<in>set rs. clean_segment x" and "\<forall>x\<in>set cs. clean_segment x" and "cs \<noteq> []"
    and "isMetadata (posix_path cwd) (''/'' @ join_str (rs @ cs) ''/'')"
  shows "findMetadataDescriptors (posix_path cwd) (''/'' @ join_str rs ''/'')
           [Data \<lparr>e_path = ''/'' @ join_str (rs @ cs) ''/'', e_isFile = True\<rparr>, End] =
         Resolved [\<lparr>name = ''META-INF/'' @ map (\<lambda>c. if c = backslash then CHR ''/'' else c)
                                              (join_str cs ''/''),
                    fqp = ''/'' @ join_str (rs @ cs) ''/''\<rparr>]"
proof -
  let ?pm = "posix_path cwd"
  have rel: "p_relative ?pm (''/'' @ join_str rs ''/'') (''/'' @ join_str (rs @ cs) ''/'') = join_str cs ''/''"
    using posix_relative_below [OF assms(1-3)] by (simp add: posix_path_def)
  have joined: "p_join ?pm ''META-INF'' (join_str cs ''/'') = ''META-INF/'' @ join_str cs ''/''"
    using posix_join_META_INF [OF assms(3,2)] by (simp add: posix_path_def)
  have "metadata_name ?pm (''/'' @ join_str rs ''/'') (''/'' @ join_str (rs @ cs) ''/'') =
      ''META-INF/'' @ map (\<lambda>c. if c = backslash then CHR ''/'' else c) (join_str cs ''/'')"
    unfolding metadata_name_replaces rel joined by (simp add: backslash_def)
  with assms(4) show ?thesis
    by (simp add: findMetadataDescriptors_def resolve_def Let_def)
qed

theorem posix_metadata_descriptor_witness:
  "findMetadataDescriptors (posix_path ''/home'') (''/'' @ join_str [''srv'', ''meta''] ''/'')
     [Data \<lparr>e_path = ''/'' @ join_str ([''srv'', ''meta''] @ [''statedb'', ''idx1.json'']) ''/'',
            e_isFile = True\<rparr>, End] =
   Resolved [\<lparr>name = ''META-INF/statedb/idx1.json'', fqp = ''/srv/meta/statedb/idx1.json''\<rparr>]"
proof -
  have rs: "\<forall>x\<in>set [''srv'', ''meta'']. clean_segment x"
    by (simp add: clean_segment_def)
  have cs: "\<forall>x\<in>set [''statedb'', ''idx1.json'']. clean_segment x"
    by (simp add: clean_segment_def)
  have ne: "[''statedb'', ''idx1.json''] \<noteq> []"
    by simp
  have meta: "isMetadata (posix_path ''/home'')
      (''/'' @ join_str ([''srv'', ''meta''] @ [''statedb'', ''idx1.json'']) ''/'')"
    by code_simp
  have name: "''META-INF/'' @ map (\<lambda>c. if c = backslash then CHR ''/'' else c)
      (join_str [''statedb'', ''idx1.json''] ''/'') = ''META-INF/statedb/idx1.json''"
    by code_simp
  have path: "''/'' @ join_str ([''srv'', ''meta''] @ [''statedb'', ''idx1.json'']) ''/'' =
      ''/srv/meta/statedb/idx1.json''"
    by code_simp
  from posix_metadata_descriptor [OF rs cs ne meta] show ?thesis
    unfolding name path .
qed

end
